theory Spec2Isabelle
  imports Main "HOL-Library.Multiset"
begin

section \<open>Exceptions\<close>

text \<open>The Python exceptions that the modelled code raises, as values.\<close>

datatype error = ValueError | KeyError | AttributeError | TypeError

section \<open>Box geometry (task3/src/utility.py)\<close>

text \<open>
  A point is indexed at positions 0, 1 and 2 by the source; it is modelled as a triple of
  coordinates over any linear order (integers, reals, or floats without NaN).
\<close>

type_synonym 'a point = "'a \<times> 'a \<times> 'a"

definition px :: "'a point \<Rightarrow> 'a" where
  "px p = fst p"

definition py :: "'a point \<Rightarrow> 'a" where
  "py p = fst (snd p)"

definition pz :: "'a point \<Rightarrow> 'a" where
  "pz p = snd (snd p)"

text \<open>
  Python's two-argument \<^verbatim>\<open>min(a, b)\<close> keeps \<open>a\<close> unless \<open>b < a\<close>, and
  \<^verbatim>\<open>max(a, b)\<close> keeps \<open>a\<close> unless \<open>b > a\<close>.
\<close>

definition py_min :: "'a::linorder \<Rightarrow> 'a \<Rightarrow> 'a" where
  "py_min a b = (if b < a then b else a)"

definition py_max :: "'a::linorder \<Rightarrow> 'a \<Rightarrow> 'a" where
  "py_max a b = (if b > a then b else a)"

definition compute_box_constraints :: "'a::linorder point \<Rightarrow> 'a point \<Rightarrow> 'a list" where
  "compute_box_constraints p1 p2 =
     (let min_x = py_min (px p1) (px p2);
          max_x = py_max (px p1) (px p2);
          min_y = py_min (py p1) (py p2);
          max_y = py_max (py p1) (py p2);
          min_z = py_min (pz p1) (pz p2);
          max_z = py_max (pz p1) (pz p2)
      in [min_x, max_x, min_y, max_y, min_z, max_z])"

definition check_same_box ::
  "'a::linorder point \<Rightarrow> 'a point \<Rightarrow> 'a point \<Rightarrow> 'a point \<Rightarrow> bool" where
  "check_same_box p1 p2 p3 p4 =
     (compute_box_constraints p1 p2 = compute_box_constraints p3 p4)"

section \<open>Properties of the box geometry\<close>

lemma py_min_eq_min: "py_min a b = min a b"
  by (auto simp: py_min_def min_def)

lemma py_max_eq_max: "py_max a b = max a b"
  by (auto simp: py_max_def max_def)

lemma compute_box_constraints_eq:
  "compute_box_constraints p1 p2 =
     [min (px p1) (px p2), max (px p1) (px p2),
      min (py p1) (py p2), max (py p1) (py p2),
      min (pz p1) (pz p2), max (pz p1) (pz p2)]"
  by (simp add: compute_box_constraints_def py_min_eq_min py_max_eq_max)

lemma min_max_pair_eq:
  fixes a b c d :: "'a::linorder"
  shows "(min a b = min c d \<and> max a b = max c d) \<longleftrightarrow> (a = c \<and> b = d \<or> a = d \<and> b = c)"
  by (auto simp: min_def max_def split: if_splits)

text \<open>
  Claim C8: swapping the two diagonal corner points does not change the 6-tuple
  (min_x, max_x, min_y, max_y, min_z, max_z) computed by compute_box_constraints.
\<close>

theorem compute_box_constraints_commute:
  "compute_box_constraints p1 p2 = compute_box_constraints p2 p1"
  by (simp add: compute_box_constraints_eq min.commute max.commute)

lemma compute_box_constraints_eq_iff:
  "compute_box_constraints p1 p2 = compute_box_constraints p3 p4 \<longleftrightarrow>
      (min (px p1) (px p2) = min (px p3) (px p4) \<and> max (px p1) (px p2) = max (px p3) (px p4)) \<and>
      (min (py p1) (py p2) = min (py p3) (py p4) \<and> max (py p1) (py p2) = max (py p3) (py p4)) \<and>
      (min (pz p1) (pz p2) = min (pz p3) (pz p4) \<and> max (pz p1) (pz p2) = max (pz p3) (pz p4))"
  unfolding compute_box_constraints_eq by (simp only: list.inject simp_thms conj_assoc)

lemma compute_box_constraints_eq_iff_corners:
  "compute_box_constraints p1 p2 = compute_box_constraints p3 p4 \<longleftrightarrow>
      (px p1 = px p3 \<and> px p2 = px p4 \<or> px p1 = px p4 \<and> px p2 = px p3) \<and>
      (py p1 = py p3 \<and> py p2 = py p4 \<or> py p1 = py p4 \<and> py p2 = py p3) \<and>
      (pz p1 = pz p3 \<and> pz p2 = pz p4 \<or> pz p1 = pz p4 \<and> pz p2 = pz p3)"
  unfolding compute_box_constraints_eq_iff min_max_pair_eq ..

lemma length_compute_box_constraints: "length (compute_box_constraints p1 p2) = 6"
  by (simp add: compute_box_constraints_eq)

text \<open>
  Claim C7: check_same_box is true exactly when the two corner pairs give element-wise
  equal constraint lists of six entries; this is the case exactly when, on every axis,
  the second pair carries the same two coordinates as the first pair in either order, so
  every relabelling or reordering of the corners of one box is recognised as the same box.
\<close>

theorem check_same_box_iff:
  "(check_same_box p1 p2 p3 p4 \<longleftrightarrow>
      length (compute_box_constraints p1 p2) = 6 \<and>
      length (compute_box_constraints p3 p4) = 6 \<and>
      list_all2 (=) (compute_box_constraints p1 p2) (compute_box_constraints p3 p4)) \<and>
   (check_same_box p1 p2 p3 p4 \<longleftrightarrow>
      (px p1 = px p3 \<and> px p2 = px p4 \<or> px p1 = px p4 \<and> px p2 = px p3) \<and>
      (py p1 = py p3 \<and> py p2 = py p4 \<or> py p1 = py p4 \<and> py p2 = py p3) \<and>
      (pz p1 = pz p3 \<and> pz p2 = pz p4 \<or> pz p1 = pz p4 \<and> pz p2 = pz p3)) \<and>
   check_same_box p1 p2 p2 p1"
proof (intro conjI)
  show "check_same_box p1 p2 p3 p4 \<longleftrightarrow>
      length (compute_box_constraints p1 p2) = 6 \<and>
      length (compute_box_constraints p3 p4) = 6 \<and>
      list_all2 (=) (compute_box_constraints p1 p2) (compute_box_constraints p3 p4)"
    by (simp only: check_same_box_def length_compute_box_constraints list.rel_eq simp_thms)
  show "check_same_box p1 p2 p3 p4 \<longleftrightarrow>
      (px p1 = px p3 \<and> px p2 = px p4 \<or> px p1 = px p4 \<and> px p2 = px p3) \<and>
      (py p1 = py p3 \<and> py p2 = py p4 \<or> py p1 = py p4 \<and> py p2 = py p3) \<and>
      (pz p1 = pz p3 \<and> pz p2 = pz p4 \<or> pz p1 = pz p4 \<and> pz p2 = pz p3)"
    unfolding check_same_box_def by (rule compute_box_constraints_eq_iff_corners)
  show "check_same_box p1 p2 p2 p1"
    unfolding check_same_box_def compute_box_constraints_eq_iff_corners by simp
qed

section \<open>Sorting by distance (task3/src/utility.py)\<close>

text \<open>
  The two library calls of \<^verbatim>\<open>sort_by_distance\<close> are parameters of the model:
  \<open>norm_diff to point\<close> is the value of \<^verbatim>\<open>np.linalg.norm(to - point)\<close>, a number
  that is not NaN, and \<open>argsort\<close> is \<^verbatim>\<open>np.argsort\<close> with its default kind. An index
  returned by \<open>argsort\<close> is used to index \<open>points\<close>.
\<close>

definition sort_by_distance ::
  "('d list \<Rightarrow> nat list) \<Rightarrow> ('p \<Rightarrow> 'p \<Rightarrow> 'd) \<Rightarrow> 'p list \<Rightarrow> 'p \<Rightarrow> bool \<Rightarrow> 'p list" where
  "sort_by_distance argsort norm_diff points to asc =
     (let distances = map (\<lambda>point. norm_diff to point) points;
          sorted_index = argsort distances;
          sorted_index = (if \<not> asc then rev sorted_index else sorted_index)
      in map (\<lambda>i. points ! i) sorted_index)"

text \<open>
  What the library promises of \<^verbatim>\<open>np.argsort\<close>: the indices of its argument,
  arranged so that the values they select are in non-decreasing order. A stable sort keeps
  the indices of equal values in increasing order; whether the default kind does so on a
  given input is decided inside the library.
\<close>

definition is_argsort :: "('d::linorder list \<Rightarrow> nat list) \<Rightarrow> bool" where
  "is_argsort argsort =
     (\<forall>ds. mset (argsort ds) = mset [0..<length ds] \<and> sorted (map (\<lambda>i. ds ! i) (argsort ds)))"

definition is_stable :: "('d list \<Rightarrow> nat list) \<Rightarrow> bool" where
  "is_stable argsort =
     (\<forall>ds k. filter (\<lambda>i. ds ! i = k) (argsort ds) = filter (\<lambda>i. ds ! i = k) [0..<length ds])"

text \<open>A stable sort of the indices meets both.\<close>

definition stable_argsort :: "'d::linorder list \<Rightarrow> nat list" where
  "stable_argsort ds = sort_key (\<lambda>i. ds ! i) [0..<length ds]"

subsection \<open>Order of the result\<close>

lemma is_argsort_stable_argsort: "is_argsort stable_argsort"
  by (simp add: is_argsort_def stable_argsort_def sorted_sort_key)

lemma is_stable_stable_argsort: "is_stable stable_argsort"
  by (simp add: is_stable_def stable_argsort_def sort_key_stable)

lemma sort_by_distance_descending:
  "sort_by_distance argsort norm_diff points to False =
     rev (sort_by_distance argsort norm_diff points to True)"
  by (simp add: sort_by_distance_def rev_map)

lemma argsort_indices:
  assumes "is_argsort argsort"
  shows "set (argsort ds) = {0..<length ds}"
proof -
  from assms have "mset (argsort ds) = mset [0..<length ds]" by (simp add: is_argsort_def)
  then have "set (argsort ds) = set [0..<length ds]" by (rule mset_eq_setD)
  then show ?thesis by simp
qed

lemma sort_by_distance_mset:
  assumes "is_argsort argsort"
  shows "mset (sort_by_distance argsort norm_diff points to True) = mset points"
proof -
  let ?ds = "map (\<lambda>point. norm_diff to point) points"
  from assms have "mset (argsort ?ds) = mset [0..<length points]"
    by (simp add: is_argsort_def)
  then have "mset (map (\<lambda>i. points ! i) (argsort ?ds)) = mset (map (\<lambda>i. points ! i) [0..<length points])"
    by (simp only: mset_map)
  then show ?thesis by (simp add: sort_by_distance_def map_nth)
qed

lemma sort_by_distance_keys:
  assumes "is_argsort argsort"
  shows "map (norm_diff to) (sort_by_distance argsort norm_diff points to True) =
    map (\<lambda>i. map (norm_diff to) points ! i) (argsort (map (norm_diff to) points))"
  using argsort_indices [OF assms, of "map (norm_diff to) points"]
  by (auto simp: sort_by_distance_def)

lemma sort_by_distance_sorted:
  assumes "is_argsort argsort"
  shows "sorted (map (norm_diff to) (sort_by_distance argsort norm_diff points to True))"
  unfolding sort_by_distance_keys [OF assms]
  using assms by (simp add: is_argsort_def)

lemma sort_by_distance_stable:
  assumes "is_argsort argsort" and "is_stable argsort"
  shows "sort_by_distance argsort norm_diff points to True = sort_key (norm_diff to) points"
proof (rule properties_for_sort_key [symmetric])
  let ?ds = "map (norm_diff to) points"
  let ?ys = "sort_by_distance argsort norm_diff points to True"
  show "mset ?ys = mset points" using assms(1) by (rule sort_by_distance_mset)
  show "sorted (map (norm_diff to) ?ys)" using assms(1) by (rule sort_by_distance_sorted)
  show "filter (\<lambda>x. norm_diff to k = norm_diff to x) ?ys =
      filter (\<lambda>x. norm_diff to k = norm_diff to x) points" for k
  proof -
    have idx: "set (argsort ?ds) = {0..<length ?ds}" using assms(1) by (rule argsort_indices)
    have "filter (\<lambda>x. norm_diff to k = norm_diff to x) ?ys =
        map (\<lambda>i. points ! i) (filter (\<lambda>i. norm_diff to k = norm_diff to (points ! i)) (argsort ?ds))"
      by (simp add: sort_by_distance_def filter_map comp_def)
    also have "filter (\<lambda>i. norm_diff to k = norm_diff to (points ! i)) (argsort ?ds) =
        filter (\<lambda>i. ?ds ! i = norm_diff to k) (argsort ?ds)"
      using idx by (intro filter_cong) auto
    also have "\<dots> = filter (\<lambda>i. ?ds ! i = norm_diff to k) [0..<length ?ds]"
      using assms(2) by (simp only: is_stable_def)
    also have "\<dots> = filter (\<lambda>i. norm_diff to k = norm_diff to (points ! i)) [0..<length points]"
      by (intro filter_cong) auto
    also have "map (\<lambda>i. points ! i) \<dots> =
        filter (\<lambda>x. norm_diff to k = norm_diff to x) (map (\<lambda>i. points ! i) [0..<length points])"
      by (simp add: filter_map comp_def)
    finally show ?thesis by (simp only: map_nth)
  qed
qed

text \<open>
  For every argsort that returns a sorting permutation of the indices, the ascending
  result is a permutation of the points in non-decreasing order of their computed
  distance and the descending result is its reverse; points at equal distance keep their
  input order when the argsort is stable.
\<close>

lemma sort_by_distance_order:
  assumes "is_argsort argsort"
  shows "mset (sort_by_distance argsort norm_diff points to True) = mset points \<and>
    sorted (map (norm_diff to) (sort_by_distance argsort norm_diff points to True)) \<and>
    sort_by_distance argsort norm_diff points to False =
      rev (sort_by_distance argsort norm_diff points to True) \<and>
    (is_stable argsort \<longrightarrow>
      sort_by_distance argsort norm_diff points to True = sort_key (norm_diff to) points)"
  using assms
  by (intro conjI impI sort_by_distance_mset sort_by_distance_sorted
      sort_by_distance_descending sort_by_distance_stable)

section \<open>Spatial queries (task3/src/utility.py)\<close>

text \<open>
  The store as the two read queries see it: the Node entities with their properties, each
  with the (global_id, time) of the Loop entity at the other end of every relationship it
  has with a Loop. Numeric literals written into the query text denote the numbers they
  were printed from.
\<close>

record 'a node =
  node_time :: int
  node_id :: int
  node_x :: 'a
  node_y :: 'a
  node_z :: 'a
  node_loops :: "(int \<times> int) list"

text \<open>The columns that both queries return for a node.\<close>

record 'a node_row =
  col_timestamp :: int
  col_node_id :: int
  col_x :: 'a
  col_y :: 'a
  col_z :: 'a

definition node_row_of :: "'a node \<Rightarrow> 'a node_row" where
  "node_row_of n =
     \<lparr>col_timestamp = node_time n, col_node_id = node_id n,
      col_x = node_x n, col_y = node_y n, col_z = node_z n\<rparr>"

text \<open>
  The pattern \<^verbatim>\<open>(n:Node{time:...})--(l:Loop)\<close> with the three chained comparisons
  of the \<^verbatim>\<open>where\<close> part: one match per relationship between a node in the box and
  a loop.
\<close>

definition box_matches :: "'a::linorder list \<Rightarrow> int \<Rightarrow> 'a node list \<Rightarrow> ('a node_row \<times> int) list" where
  "box_matches constraints ts nodes =
     concat (map (\<lambda>n. map (\<lambda>l. (node_row_of n, fst l)) (node_loops n))
       (filter (\<lambda>n. node_time n = ts \<and>
            constraints ! 0 \<le> node_x n \<and> node_x n \<le> constraints ! 1 \<and>
            constraints ! 2 \<le> node_y n \<and> node_y n \<le> constraints ! 3 \<and>
            constraints ! 4 \<le> node_z n \<and> node_z n \<le> constraints ! 5) nodes))"

text \<open>
  The \<^verbatim>\<open>return\<close> part groups the matches by the node columns and collects the
  distinct global ids of each group. The store fixes neither the order of the groups nor
  the order inside a collected list.
\<close>

definition collect_distinct :: "('k \<times> 'v) list \<Rightarrow> ('k \<times> 'v list) list" where
  "collect_distinct matches =
     map (\<lambda>k. (k, remdups (map snd (filter (\<lambda>m. fst m = k) matches))))
       (remdups (map fst matches))"

text \<open>The parameter \<^verbatim>\<open>where_clause\<close> does not occur in the body of the source function.\<close>

definition get_nodes_in_box ::
  "'a::linorder point \<Rightarrow> 'a point \<Rightarrow> int \<Rightarrow> string option \<Rightarrow> 'a node list \<Rightarrow>
     ('a node_row \<times> int list) list" where
  "get_nodes_in_box p1 p2 ts where_clause nodes =
     (let constraints = compute_box_constraints p1 p2
      in collect_distinct (box_matches constraints ts nodes))"

subsection \<open>Nodes in a box\<close>

text \<open>Three nodes A, B, C at (0,0,0), (5,5,5), (10,10,10) with given loop relationships.\<close>

definition node_abc :: "(int \<times> int) list \<Rightarrow> (int \<times> int) list \<Rightarrow> (int \<times> int) list \<Rightarrow> int \<Rightarrow> int node list" where
  "node_abc la lb lc t =
    [\<lparr>node_time = t, node_id = 1, node_x = 0, node_y = 0, node_z = 0, node_loops = la\<rparr>,
     \<lparr>node_time = t, node_id = 2, node_x = 5, node_y = 5, node_z = 5, node_loops = lb\<rparr>,
     \<lparr>node_time = t, node_id = 3, node_x = 10, node_y = 10, node_z = 10, node_loops = lc\<rparr>]"

definition in_box :: "'a::linorder point \<Rightarrow> 'a point \<Rightarrow> 'a node \<Rightarrow> bool" where
  "in_box p1 p2 n =
     (min (px p1) (px p2) \<le> node_x n \<and> node_x n \<le> max (px p1) (px p2) \<and>
      min (py p1) (py p2) \<le> node_y n \<and> node_y n \<le> max (py p1) (py p2) \<and>
      min (pz p1) (pz p2) \<le> node_z n \<and> node_z n \<le> max (pz p1) (pz p2))"

lemma collect_distinct_keys:
  "set (map fst (collect_distinct ms)) = fst ` set ms" "distinct (map fst (collect_distinct ms))"
  by (simp_all add: collect_distinct_def comp_def)

lemma compute_box_constraints_nth:
  "compute_box_constraints p1 p2 ! 0 = min (px p1) (px p2)"
  "compute_box_constraints p1 p2 ! 1 = max (px p1) (px p2)"
  "compute_box_constraints p1 p2 ! 2 = min (py p1) (py p2)"
  "compute_box_constraints p1 p2 ! 3 = max (py p1) (py p2)"
  "compute_box_constraints p1 p2 ! 4 = min (pz p1) (pz p2)"
  "compute_box_constraints p1 p2 ! 5 = max (pz p1) (pz p2)"
  by (simp_all add: compute_box_constraints_eq)

lemma box_matches_eq:
  "box_matches (compute_box_constraints p1 p2) ts nodes =
     concat (map (\<lambda>n. map (\<lambda>l. (node_row_of n, fst l)) (node_loops n))
       (filter (\<lambda>n. node_time n = ts \<and> in_box p1 p2 n) nodes))"
  unfolding box_matches_def compute_box_constraints_nth in_box_def ..

lemma box_matches_keys:
  "fst ` set (box_matches (compute_box_constraints p1 p2) ts nodes) =
     node_row_of ` {n \<in> set nodes. node_time n = ts \<and> node_loops n \<noteq> [] \<and> in_box p1 p2 n}"
proof -
  have "fst ` set (box_matches (compute_box_constraints p1 p2) ts nodes) =
      (\<Union>n\<in>{n \<in> set nodes. node_time n = ts \<and> in_box p1 p2 n}.
          (\<lambda>l. node_row_of n) ` set (node_loops n))"
    unfolding box_matches_eq by (simp add: image_UN image_image)
  also have "\<dots> = node_row_of ` {n \<in> set nodes. node_time n = ts \<and> node_loops n \<noteq> [] \<and> in_box p1 p2 n}"
    by (auto simp: image_constant_conv split: if_splits)
  finally show ?thesis .
qed

text \<open>
  Claim C6: for all corner points, timestamps and where clauses, get_nodes_in_box with a
  where clause returns what it returns without one; the parameter has no effect.
\<close>

theorem where_clause_ignored:
  "get_nodes_in_box p1 p2 ts where_clause nodes = get_nodes_in_box p1 p2 ts None nodes"
  by (simp add: get_nodes_in_box_def)

lemma remdups_map_const: "xs \<noteq> [] \<Longrightarrow> remdups (map (\<lambda>_. c) xs) = [c]"
proof (induction xs)
  case Nil
  then show ?case by simp
next
  case (Cons a xs)
  show ?case
  proof (cases "xs = []")
    case True
    then show ?thesis by simp
  next
    case False
    then have "c \<in> set (map (\<lambda>_. c) xs)" by (cases xs) simp_all
    with Cons.IH [OF False] show ?thesis by simp
  qed
qed

lemma get_nodes_in_box_abc:
  assumes "lb \<noteq> []"
  shows "get_nodes_in_box (1, 1, 1) (9, 9, 9) t wc (node_abc la lb lc t) =
       [(\<lparr>col_timestamp = t, col_node_id = 2, col_x = 5, col_y = 5, col_z = 5\<rparr>, remdups (map fst lb))]"
proof -
  have "box_matches (compute_box_constraints (1, 1, 1) (9, 9, 9)) t (node_abc la lb lc t) =
      map (\<lambda>l. (\<lparr>col_timestamp = t, col_node_id = 2, col_x = 5, col_y = 5, col_z = 5\<rparr>, fst l)) lb"
    by (simp add: box_matches_eq in_box_def node_abc_def px_def py_def pz_def
        node_row_of_def)
  moreover have "remdups (map (\<lambda>l. \<lparr>col_timestamp = t, col_node_id = 2, col_x = 5::int, col_y = 5::int, col_z = 5::int\<rparr>) lb) =
      [\<lparr>col_timestamp = t, col_node_id = 2, col_x = 5, col_y = 5, col_z = 5\<rparr>]"
    using assms by (rule remdups_map_const)
  ultimately show ?thesis
    by (simp add: get_nodes_in_box_def collect_distinct_def comp_def)
qed

lemma get_nodes_in_box_keys:
  "set (map fst (get_nodes_in_box p1 p2 ts wc nodes)) =
     node_row_of ` {n \<in> set nodes. node_time n = ts \<and> node_loops n \<noteq> [] \<and> in_box p1 p2 n}"
  unfolding get_nodes_in_box_def Let_def collect_distinct_keys by (rule box_matches_keys)

text \<open>
  What the query returns: one row for each combination of (time, id, x, y, z) of the nodes
  at the timestamp that have a relationship with a Loop and lie within the inclusive
  bounds; with B related to a loop, the box from (1,1,1) to (9,9,9) holds only B.
\<close>

lemma get_nodes_in_box_rows:
  "set (map fst (get_nodes_in_box p1 p2 ts wc nodes)) =
     node_row_of ` {n \<in> set nodes. node_time n = ts \<and> node_loops n \<noteq> [] \<and> in_box p1 p2 n} \<and>
   distinct (map fst (get_nodes_in_box p1 p2 ts wc nodes))"
proof (intro conjI)
  show "set (map fst (get_nodes_in_box p1 p2 ts wc nodes)) =
     node_row_of ` {n \<in> set nodes. node_time n = ts \<and> node_loops n \<noteq> [] \<and> in_box p1 p2 n}"
    by (rule get_nodes_in_box_keys)
  show "distinct (map fst (get_nodes_in_box p1 p2 ts wc nodes))"
    unfolding get_nodes_in_box_def Let_def by (rule collect_distinct_keys)
qed

lemma get_nodes_in_box_abc_connected:
  "get_nodes_in_box (1, 1, 1) (9, 9, 9) 50 None (node_abc [(1, 50)] [(1, 50), (2, 50), (1, 60)] [] 50) =
       [(\<lparr>col_timestamp = 50, col_node_id = 2, col_x = 5, col_y = 5, col_z = 5\<rparr>, [2, 1])]"
  by code_simp

text \<open>
  Claim C2: get_nodes_in_box is to return exactly the Nodes at the timestamp whose
  coordinates lie within the inclusive bounds of compute_box_constraints, all nodes with
  coordinates in the box as its docstring says; for nodes A, B, C at (0,0,0), (5,5,5),
  (10,10,10) and the box from (1,1,1) to (9,9,9), only B. The query matches a node only
  together with a Loop related to it: B without such a relationship is at the timestamp
  and in the box, and the result is empty.
\<close>

theorem get_nodes_in_box_misses_unconnected_node:
  "node_abc [(1, 50)] [] [(2, 50)] 50 ! 1 =
     \<lparr>node_time = 50, node_id = 2, node_x = 5, node_y = 5, node_z = 5, node_loops = []\<rparr> \<and>
   in_box (1, 1, 1) (9, 9, 9) (node_abc [(1, 50)] [] [(2, 50)] 50 ! 1) \<and>
   get_nodes_in_box (1, 1, 1) (9, 9, 9) 50 None (node_abc [(1, 50)] [] [(2, 50)] 50) = []"
  by code_simp

subsection \<open>Fitting a box to a loop\<close>

text \<open>
  \<^verbatim>\<open>res["x", "y", "z"]\<close> indexes the frame with the single key
  \<^verbatim>\<open>("x", "y", "z")\<close>, a tuple. A frame built from query rows has the labels
  timestamp, node_id, x, y, z when there is a row and no label otherwise, so a tuple is
  never one of its labels.
\<close>

datatype column_key = Name string | Names "string list"

datatype 'a cell = IntCell int | NumCell 'a

definition cell :: "string \<Rightarrow> 'a node_row \<Rightarrow> 'a cell" where
  "cell c r =
     (if c = ''timestamp'' then IntCell (col_timestamp r)
      else if c = ''node_id'' then IntCell (col_node_id r)
      else if c = ''x'' then NumCell (col_x r)
      else if c = ''y'' then NumCell (col_y r)
      else NumCell (col_z r))"

definition frame_getitem :: "'a node_row list \<Rightarrow> column_key \<Rightarrow> error + 'a cell list" where
  "frame_getitem rows key =
     (case key of
        Name c \<Rightarrow>
          if rows \<noteq> [] \<and> c \<in> set [''timestamp'', ''node_id'', ''x'', ''y'', ''z'']
          then Inr (map (cell c) rows) else Inl KeyError
      | Names cs \<Rightarrow> Inl KeyError)"

text \<open>The rows of \<^verbatim>\<open>query_loop_nodes\<close>: one per relationship of a node with the loop.\<close>

definition loop_nodes :: "int \<Rightarrow> int \<Rightarrow> 'a node list \<Rightarrow> 'a node_row list" where
  "loop_nodes loop_gid ts nodes =
     concat (map (\<lambda>n. map (\<lambda>l. node_row_of n) (filter (\<lambda>l. l = (loop_gid, ts)) (node_loops n)))
       (filter (\<lambda>n. node_time n = ts) nodes))"

text \<open>
  Line 127 comes first; were the key found, \<^verbatim>\<open>min()\<close> of the one column would be
  a scalar and unpacking it into three names a TypeError. Lines 128 to 136 are reached in
  neither case.
\<close>

definition fit_box_to_loop ::
  "int \<Rightarrow> int \<Rightarrow> 'a::linorder node list \<Rightarrow> error + ('a point \<times> 'a point \<times> 'a list)" where
  "fit_box_to_loop loop_gid ts nodes =
     (let res = loop_nodes loop_gid ts nodes
      in case frame_getitem res (Names [''x'', ''y'', ''z'']) of
           Inl e \<Rightarrow> Inl e
         | Inr column \<Rightarrow> Inl TypeError)"

text \<open>The assertion of line 134 would hold for per-axis extremes.\<close>

lemma compute_box_constraints_extremes:
  assumes "x1 \<le> x2" and "y1 \<le> y2" and "z1 \<le> z2"
  shows "compute_box_constraints (x1, y1, z1) (x2, y2, z2) = [x1, x2, y1, y2, z1, z2]"
  using assms by (simp add: compute_box_constraints_eq px_def py_def pz_def min_def max_def)

text \<open>
  Claim C3: fit_box_to_loop is to return the per-axis extremes p1, p2 of the loop's nodes
  and constraints equal to compute_box_constraints p1 p2. The function returns nothing:
  for every loop id, timestamp and store it raises KeyError at line 127.
\<close>

theorem fit_box_to_loop_raises: "fit_box_to_loop loop_gid ts nodes = Inl KeyError"
  by (simp add: fit_box_to_loop_def frame_getitem_def)

definition one_node_loop :: "int node list" where
  "one_node_loop =
     [\<lparr>node_time = 50, node_id = 1, node_x = 0, node_y = 0, node_z = 0, node_loops = [(1, 50)]\<rparr>]"

lemma fit_box_to_loop_one_node:
  "loop_nodes 1 50 one_node_loop = [\<lparr>col_timestamp = 50, col_node_id = 1, col_x = 0, col_y = 0, col_z = 0\<rparr>] \<and>
   fit_box_to_loop 1 50 one_node_loop = Inl KeyError"
  by code_simp

section \<open>Junction aggregation (task4/eloop_creation.py)\<close>

text \<open>
  The script keeps one table, \<^verbatim>\<open>final_dict\<close>, across all timestamps; the data frame
  built from it at each timestamp shares the list objects of its rows, so appending through
  the frame updates the table. A row is keyed by (id, time). The script raises
  \<open>ValueError\<close> from \<^verbatim>\<open>int\<close>, \<open>KeyError\<close> from \<^verbatim>\<open>.loc\<close> on a key with
  no row, and \<open>AttributeError\<close> from calling a list method on the frame that
  \<^verbatim>\<open>.loc\<close> yields when the index has a duplicate.
\<close>

record eloop_row =
  row_id :: int
  row_time :: int
  jtypes :: "string list"
  connected_loops :: "int list"

text \<open>
  Python's \<^verbatim>\<open>int(s)\<close> on a string of code points below 256. Whitespace at both
  ends is skipped: tab, line feed, vertical tab, form feed, carriage return and space, and
  the two spaces U+0085 and U+00A0 above the ASCII range; the separators U+001C to U+001F
  are not skipped. One sign is allowed, then decimal digits with single underscores
  between digits. A numeral of more than 4300 digits is refused, the default limit of the
  interpreter.
\<close>

definition is_space :: "char \<Rightarrow> bool" where
  "is_space c = ((of_char c :: nat) \<in> {9, 10, 11, 12, 13, 32, 133, 160})"

definition is_digit :: "char \<Rightarrow> bool" where
  "is_digit c = (48 \<le> (of_char c :: nat) \<and> (of_char c :: nat) \<le> 57)"

definition digit_value :: "char \<Rightarrow> int" where
  "digit_value c = int (of_char c) - 48"

definition strip :: "string \<Rightarrow> string" where
  "strip s = rev (dropWhile is_space (rev (dropWhile is_space s)))"

fun digits_value :: "int \<Rightarrow> string \<Rightarrow> int option" where
  "digits_value acc [] = Some acc"
| "digits_value acc [c] = (if is_digit c then Some (10 * acc + digit_value c) else None)"
| "digits_value acc (c # d # ds) =
     (if is_digit c then digits_value (10 * acc + digit_value c) (d # ds)
      else if c = CHR ''_'' \<and> is_digit d then digits_value (10 * acc + digit_value d) ds
      else None)"

definition max_str_digits :: nat where
  "max_str_digits = 4300"

definition unsigned_value :: "string \<Rightarrow> int option" where
  "unsigned_value s =
     (case s of [] \<Rightarrow> None
      | c # cs \<Rightarrow>
          if is_digit c \<and> length (filter is_digit s) \<le> max_str_digits
          then digits_value (digit_value c) cs else None)"

definition py_int :: "string \<Rightarrow> int option" where
  "py_int s =
     (case strip s of [] \<Rightarrow> None
      | c # cs \<Rightarrow>
          if c = CHR ''+'' then unsigned_value cs
          else if c = CHR ''-'' then map_option uminus (unsigned_value cs)
          else unsigned_value (c # cs))"

text \<open>\<^verbatim>\<open>s.split("-")\<close>: the pieces between hyphens, empty pieces included.\<close>

fun split_hyphen :: "string \<Rightarrow> string list" where
  "split_hyphen [] = [[]]"
| "split_hyphen (c # cs) =
     (if c = CHR ''-'' then [] # split_hyphen cs
      else (case split_hyphen cs of [] \<Rightarrow> [[c]] | t # ts \<Rightarrow> (c # t) # ts))"

text \<open>
  \<^verbatim>\<open>final_df.loc[loop_id, ts]\<close> followed by a list method on one of its cells.
  The frame holds the rows of all timestamps so far, indexed by (id, time). No row with
  the key raises KeyError. A row is returned, and its list mutated, only when the whole
  index is free of duplicates; with a duplicate anywhere in the index the lookup yields a
  frame, on which the list method does not exist.
\<close>

definition row_key :: "eloop_row \<Rightarrow> int \<times> int" where
  "row_key r = (row_id r, row_time r)"

definition key_is :: "int \<Rightarrow> int \<Rightarrow> eloop_row \<Rightarrow> bool" where
  "key_is i t r = (row_id r = i \<and> row_time r = t)"

definition loc_check :: "eloop_row list \<Rightarrow> int \<Rightarrow> int \<Rightarrow> error option" where
  "loc_check rows i t =
     (if filter (key_is i t) rows = [] then Some KeyError
      else if distinct (map row_key rows) then None
      else Some AttributeError)"

definition modify_row ::
  "int \<Rightarrow> int \<Rightarrow> (eloop_row \<Rightarrow> eloop_row) \<Rightarrow> eloop_row list \<Rightarrow> eloop_row list" where
  "modify_row i t f rows = map (\<lambda>r. if key_is i t r then f r else r) rows"

definition append_jtype :: "string \<Rightarrow> eloop_row \<Rightarrow> eloop_row" where
  "append_jtype jtype r = r\<lparr>jtypes := jtypes r @ [jtype]\<rparr>"

definition extend_connected :: "int list \<Rightarrow> eloop_row \<Rightarrow> eloop_row" where
  "extend_connected others r = r\<lparr>connected_loops := connected_loops r @ others\<rparr>"

text \<open>The comprehension \<^verbatim>\<open>[int(loop) for loop in loops if int(loop) != loop_id]\<close>.\<close>

fun other_loops :: "string list \<Rightarrow> int \<Rightarrow> int list option" where
  "other_loops [] loop_id = Some []"
| "other_loops (loop # loops) loop_id =
     (case py_int loop of
        None \<Rightarrow> None
      | Some j \<Rightarrow>
          (case other_loops loops loop_id of
             None \<Rightarrow> None
           | Some js \<Rightarrow> Some (if j \<noteq> loop_id then j # js else js)))"

text \<open>The body of the inner loop, lines 44 to 48, for one piece of the global id.\<close>

definition process_loop ::
  "int \<Rightarrow> string \<Rightarrow> string list \<Rightarrow> eloop_row list \<Rightarrow> string \<Rightarrow> error + eloop_row list" where
  "process_loop ts jtype loops rows loop =
     (case py_int loop of
        None \<Rightarrow> Inl ValueError
      | Some loop_id \<Rightarrow>
          (case loc_check rows loop_id ts of
             Some e \<Rightarrow> Inl e
           | None \<Rightarrow>
               (let rows1 = modify_row loop_id ts (append_jtype jtype) rows in
                case loc_check rows1 loop_id ts of
                  Some e \<Rightarrow> Inl e
                | None \<Rightarrow>
                    (case other_loops loops loop_id of
                       None \<Rightarrow> Inl ValueError
                     | Some others \<Rightarrow>
                         Inr (modify_row loop_id ts (extend_connected others) rows1)))))"

fun process_loops ::
  "int \<Rightarrow> string \<Rightarrow> string list \<Rightarrow> eloop_row list \<Rightarrow> string list \<Rightarrow> error + eloop_row list" where
  "process_loops ts jtype loops rows [] = Inr rows"
| "process_loops ts jtype loops rows (loop # rest) =
     (case process_loop ts jtype loops rows loop of
        Inl e \<Rightarrow> Inl e
      | Inr rows' \<Rightarrow> process_loops ts jtype loops rows' rest)"

definition process_junction ::
  "int \<Rightarrow> eloop_row list \<Rightarrow> string \<times> string \<Rightarrow> error + eloop_row list" where
  "process_junction ts rows junction =
     (let loops = split_hyphen (fst junction)
      in process_loops ts (snd junction) loops rows loops)"

fun process_junctions ::
  "int \<Rightarrow> eloop_row list \<Rightarrow> (string \<times> string) list \<Rightarrow> error + eloop_row list" where
  "process_junctions ts rows [] = Inr rows"
| "process_junctions ts rows (junction # rest) =
     (case process_junction ts rows junction of
        Inl e \<Rightarrow> Inl e
      | Inr rows' \<Rightarrow> process_junctions ts rows' rest)"

text \<open>
  The store as the script reads it: the ids returned by \<^verbatim>\<open>loop_query\<close> and the
  (global_id, type) pairs returned by \<^verbatim>\<open>junction_query\<close> for a timestamp, in the
  order of the result rows.
\<close>

record graph_db =
  loop_query :: "int \<Rightarrow> int list"
  junction_query :: "int \<Rightarrow> (string \<times> string) list"

definition new_row :: "int \<Rightarrow> int \<Rightarrow> eloop_row" where
  "new_row ts i = \<lparr>row_id = i, row_time = ts, jtypes = [], connected_loops = []\<rparr>"

definition collect_loops :: "int \<Rightarrow> int list \<Rightarrow> eloop_row list \<Rightarrow> eloop_row list" where
  "collect_loops ts all_loops rows = rows @ map (new_row ts) all_loops"

definition aggregate_ts :: "graph_db \<Rightarrow> int \<Rightarrow> eloop_row list \<Rightarrow> error + eloop_row list" where
  "aggregate_ts db ts rows =
     process_junctions ts (collect_loops ts (loop_query db ts) rows) (junction_query db ts)"

fun aggregate_range :: "graph_db \<Rightarrow> eloop_row list \<Rightarrow> int list \<Rightarrow> error + eloop_row list" where
  "aggregate_range db rows [] = Inr rows"
| "aggregate_range db rows (ts # rest) =
     (case aggregate_ts db ts rows of
        Inl e \<Rightarrow> Inl e
      | Inr rows' \<Rightarrow> aggregate_range db rows' rest)"

text \<open>\<^verbatim>\<open>range(50, 10000, 50)\<close>\<close>

definition scan_range :: "int list" where
  "scan_range = map (\<lambda>k. 50 * int k) [1..<200]"

definition eloop_creation :: "graph_db \<Rightarrow> error + eloop_row list" where
  "eloop_creation db = aggregate_range db [] scan_range"

section \<open>Properties of the junction aggregation\<close>

subsection \<open>Keys of the table\<close>

lemma filter_key_is_Nil:
  "filter (key_is i t) rows = [] \<longleftrightarrow> (i, t) \<notin> set (map row_key rows)"
  by (induction rows) (auto simp: key_is_def row_key_def)

lemma row_key_modify_append_jtype:
  "map row_key (modify_row i t (append_jtype jt) rows) = map row_key rows"
  by (induction rows) (simp_all add: modify_row_def append_jtype_def row_key_def)

lemma row_key_modify_extend_connected:
  "map row_key (modify_row i t (extend_connected js) rows) = map row_key rows"
  by (induction rows) (simp_all add: modify_row_def extend_connected_def row_key_def)

lemma process_loop_Inr:
  assumes "process_loop ts jt loops rows loop = Inr rows'"
  obtains i js where "py_int loop = Some i" "loc_check rows i ts = None"
    "other_loops loops i = Some js"
    "rows' = modify_row i ts (extend_connected js) (modify_row i ts (append_jtype jt) rows)"
  using assms unfolding process_loop_def Let_def
  by (simp split: option.splits)

lemma process_loop_keys:
  assumes "process_loop ts jt loops rows loop = Inr rows'"
  shows "map row_key rows' = map row_key rows"
proof -
  from assms obtain i js where
    "rows' = modify_row i ts (extend_connected js) (modify_row i ts (append_jtype jt) rows)"
    by (rule process_loop_Inr)
  then show ?thesis
    by (simp only: row_key_modify_extend_connected row_key_modify_append_jtype)
qed

lemma process_loops_keys:
  "process_loops ts jt loops rows rest = Inr rows' \<Longrightarrow> map row_key rows' = map row_key rows"
proof (induction rest arbitrary: rows)
  case Nil
  then show ?case by simp
next
  case (Cons loop rest)
  from Cons.prems obtain rows1 where 1: "process_loop ts jt loops rows loop = Inr rows1"
    and 2: "process_loops ts jt loops rows1 rest = Inr rows'"
    by (cases "process_loop ts jt loops rows loop") simp_all
  from Cons.IH [OF 2] process_loop_keys [OF 1] show ?case by simp
qed

lemma process_junction_keys:
  "process_junction ts rows j = Inr rows' \<Longrightarrow> map row_key rows' = map row_key rows"
  unfolding process_junction_def Let_def by (rule process_loops_keys)

lemma process_junctions_keys:
  "process_junctions ts rows js = Inr rows' \<Longrightarrow> map row_key rows' = map row_key rows"
proof (induction js arbitrary: rows)
  case Nil
  then show ?case by simp
next
  case (Cons j js)
  from Cons.prems obtain rows1 where 1: "process_junction ts rows j = Inr rows1"
    and 2: "process_junctions ts rows1 js = Inr rows'"
    by (cases "process_junction ts rows j") simp_all
  from Cons.IH [OF 2] process_junction_keys [OF 1] show ?case by simp
qed

lemma collect_loops_keys:
  "map row_key (collect_loops ts ids rows) = map row_key rows @ map (\<lambda>i. (i, ts)) ids"
  by (simp add: collect_loops_def new_row_def row_key_def comp_def)

lemma aggregate_ts_keys:
  "aggregate_ts db ts rows = Inr rows' \<Longrightarrow>
   map row_key rows' = map row_key rows @ map (\<lambda>i. (i, ts)) (loop_query db ts)"
  unfolding aggregate_ts_def
  by (drule process_junctions_keys) (simp only: collect_loops_keys)

subsection \<open>Lookups at the current timestamp\<close>

text \<open>
  With distinct collected ids, distinct keys among the older rows and all older rows at
  other timestamps, the index has no duplicate and a key (i, ts) has a row exactly when i
  was collected; the fold keeps the keys, so this holds at every step.
\<close>

definition table_ok :: "int list \<Rightarrow> int \<Rightarrow> eloop_row list \<Rightarrow> bool" where
  "table_ok ids ts rows =
     (distinct (map row_key rows) \<and> (\<forall>i. (i, ts) \<in> set (map row_key rows) \<longleftrightarrow> i \<in> set ids))"

lemma other_time_keys:
  "\<forall>r\<in>set rows. row_time r \<noteq> ts \<Longrightarrow> (i, ts) \<notin> set (map row_key rows)"
  by (auto simp: row_key_def)

lemma distinct_new_keys: "distinct (map (\<lambda>i. (i, ts)) ids) = distinct ids"
  by (simp add: distinct_map inj_on_def)

lemma table_ok_collect_loops:
  assumes "distinct ids" and "distinct (map row_key rows)"
    and "\<forall>r\<in>set rows. row_time r \<noteq> ts"
  shows "table_ok ids ts (collect_loops ts ids rows)"
proof -
  have disjoint: "set (map row_key rows) \<inter> set (map (\<lambda>i. (i, ts)) ids) = {}"
    using other_time_keys [OF assms(3)] by auto
  have "distinct (map row_key rows @ map (\<lambda>i. (i, ts)) ids)"
    using assms(1,2) disjoint by (simp only: distinct_append distinct_new_keys simp_thms)
  moreover have "(i, ts) \<in> set (map row_key rows @ map (\<lambda>i. (i, ts)) ids) \<longleftrightarrow> i \<in> set ids" for i
    using other_time_keys [OF assms(3), of i] by auto
  ultimately show ?thesis
    unfolding table_ok_def collect_loops_keys by blast
qed

lemma table_ok_keys:
  "map row_key rows' = map row_key rows \<Longrightarrow> table_ok ids ts rows \<Longrightarrow> table_ok ids ts rows'"
  by (simp add: table_ok_def)

lemma loc_check_table_ok:
  "table_ok ids ts rows \<Longrightarrow> loc_check rows i ts = (if i \<in> set ids then None else Some KeyError)"
  by (simp add: loc_check_def filter_key_is_Nil table_ok_def del: set_map)

lemma other_loops_None_iff:
  "other_loops loops i = None \<longleftrightarrow> (\<exists>l\<in>set loops. py_int l = None)"
  by (induction loops) (auto split: option.splits)

lemma process_loop_table_ok:
  assumes "table_ok ids ts rows"
  shows "process_loop ts jt loops rows loop =
     (case py_int loop of
        None \<Rightarrow> Inl ValueError
      | Some i \<Rightarrow>
          if i \<notin> set ids then Inl KeyError
          else (case other_loops loops i of
                  None \<Rightarrow> Inl ValueError
                | Some js \<Rightarrow> Inr (modify_row i ts (extend_connected js)
                                   (modify_row i ts (append_jtype jt) rows))))"
proof (cases "py_int loop")
  case None
  then show ?thesis by (simp add: process_loop_def)
next
  case (Some i)
  have "table_ok ids ts (modify_row i ts (append_jtype jt) rows)"
    using row_key_modify_append_jtype assms by (rule table_ok_keys)
  then show ?thesis
    using Some
    by (simp add: process_loop_def Let_def loc_check_table_ok [OF assms] loc_check_table_ok)
qed

subsection \<open>One junction between two of three loops\<close>

lemma py_int_simps:
  "py_int ''1'' = Some 1" "py_int ''2'' = Some 2"
  by (simp_all add: py_int_def strip_def is_space_def unsigned_value_def is_digit_def
      digit_value_def max_str_digits_def)

lemma modify_row_append_other_time:
  "\<forall>r\<in>set rows. row_time r \<noteq> t \<Longrightarrow> modify_row i t f (rows @ new) = rows @ modify_row i t f new"
  by (induction rows) (auto simp: modify_row_def key_is_def)

lemma perm_123:
  assumes "distinct ids" "set ids = {1, 2, 3::int}"
  shows "ids \<in> {[1,2,3],[1,3,2],[2,1,3],[2,3,1],[3,1,2],[3,2,1]}"
proof -
  have "length ids = 3" using assms distinct_card [of ids] by simp
  then obtain a b c where ids: "ids = [a, b, c]"
    by (cases ids; cases "tl ids"; cases "tl (tl ids)") auto
  have a: "a \<in> {1,2,3}" and b: "b \<in> {1,2,3}" and c: "c \<in> {1,2,3}"
    using assms(2) unfolding ids by auto
  have d: "a \<noteq> b" "a \<noteq> c" "b \<noteq> c" using assms(1) unfolding ids by auto
  from a b c d show ?thesis unfolding ids by auto
qed

lemma modify_123:
  assumes "ids \<in> {[1,2,3],[1,3,2],[2,1,3],[2,3,1],[3,1,2],[3,2,1::int]}"
  shows "modify_row 2 t (extend_connected [1]) (modify_row 2 t (append_jtype ''T'')
       (modify_row 1 t (extend_connected [2]) (modify_row 1 t (append_jtype ''T'')
         (map (new_row t) ids)))) =
     map (\<lambda>i. \<lparr>row_id = i, row_time = t,
                       jtypes = (if i = 3 then [] else [''T'']),
                       connected_loops = (if i = 1 then [2] else if i = 2 then [1] else [])\<rparr>) ids"
  using assms
  by (auto simp: new_row_def modify_row_def key_is_def append_jtype_def extend_connected_def)

text \<open>
  Claim C1: at a timestamp t whose collected loop ids are 1, 2 and 3 (in any order) and
  whose only junction has global id "1-2" and type "T", the aggregation adds exactly one
  row per collected loop, with junction types ["T"] and connected loops [2] for loop 1,
  ["T"] and [1] for loop 2, and two empty lists for loop 3, which occurs in no junction.
  The older rows of the table belong to other timestamps and have pairwise distinct keys,
  as the store identifies a loop by its id and time.
\<close>

theorem aggregate_single_junction:
  assumes "distinct (loop_query db t)" and "set (loop_query db t) = {1, 2, 3}"
    and "junction_query db t = [(''1-2'', ''T'')]"
    and "\<forall>r\<in>set rows. row_time r \<noteq> t" and "distinct (map row_key rows)"
  shows "aggregate_ts db t rows =
     Inr (rows @ map (\<lambda>i. \<lparr>row_id = i, row_time = t,
                       jtypes = (if i = 3 then [] else [''T'']),
                       connected_loops = (if i = 1 then [2] else if i = 2 then [1] else [])\<rparr>)
                 (loop_query db t))"
proof -
  let ?ids = "loop_query db t"
  let ?T0 = "collect_loops t ?ids rows"
  let ?T1 = "modify_row 1 t (extend_connected [2]) (modify_row 1 t (append_jtype ''T'') ?T0)"
  let ?T2 = "modify_row 2 t (extend_connected [1]) (modify_row 2 t (append_jtype ''T'') ?T1)"
  have ok0: "table_ok ?ids t ?T0"
    using assms(1,5,4) by (rule table_ok_collect_loops)
  have o1: "other_loops [''1'', ''2''] 1 = Some [2]" and o2: "other_loops [''1'', ''2''] 2 = Some [1]"
    by (simp_all add: py_int_simps)
  have s1: "process_loop t ''T'' [''1'', ''2''] ?T0 ''1'' = Inr ?T1"
    by (simp add: process_loop_table_ok [OF ok0] py_int_simps assms(2) o1)
  have "map row_key ?T1 = map row_key ?T0"
    by (simp only: row_key_modify_extend_connected row_key_modify_append_jtype)
  then have ok1: "table_ok ?ids t ?T1" using ok0 by (rule table_ok_keys)
  have s2: "process_loop t ''T'' [''1'', ''2''] ?T1 ''2'' = Inr ?T2"
    by (simp add: process_loop_table_ok [OF ok1] py_int_simps assms(2) o2)
  have run: "aggregate_ts db t rows = Inr ?T2"
    by (simp add: aggregate_ts_def assms(3) process_junction_def s1 s2)
  have ids: "?ids \<in> {[1,2,3],[1,3,2],[2,1,3],[2,3,1],[3,1,2],[3,2,1]}"
    using assms(1,2) by (rule perm_123)
  have "?T2 = rows @ modify_row 2 t (extend_connected [1]) (modify_row 2 t (append_jtype ''T'')
       (modify_row 1 t (extend_connected [2]) (modify_row 1 t (append_jtype ''T'')
         (map (new_row t) ?ids))))"
    by (simp only: collect_loops_def modify_row_append_other_time [OF assms(4)])
  with run show ?thesis by (simp only: modify_123 [OF ids])
qed

definition db_single :: graph_db where
  "db_single = \<lparr>loop_query = (\<lambda>t. if t = 100 then [3, 1, 2] else [7]),
     junction_query = (\<lambda>t. if t = 100 then [(''1-2'', ''T'')] else [])\<rparr>"

theorem aggregate_single_junction_witness:
  "distinct (loop_query db_single 100) \<and> set (loop_query db_single 100) = {1, 2, 3} \<and>
   junction_query db_single 100 = [(''1-2'', ''T'')] \<and>
   row_time (new_row 50 7) \<noteq> 100 \<and> distinct (map row_key [new_row 50 7]) \<and>
   aggregate_ts db_single 100 [new_row 50 7] =
     Inr [new_row 50 7,
          \<lparr>row_id = 3, row_time = 100, jtypes = [], connected_loops = []\<rparr>,
          \<lparr>row_id = 1, row_time = 100, jtypes = [''T''], connected_loops = [2]\<rparr>,
          \<lparr>row_id = 2, row_time = 100, jtypes = [''T''], connected_loops = [1]\<rparr>]"
  using aggregate_single_junction [of db_single 100 "[new_row 50 7]"]
  by (auto simp: db_single_def new_row_def)

subsection \<open>No loop is connected to itself\<close>

definition no_self_connection :: "eloop_row list \<Rightarrow> bool" where
  "no_self_connection rows = list_all (\<lambda>r. row_id r \<notin> set (connected_loops r)) rows"

lemma other_loops_not_self: "other_loops loops i = Some js \<Longrightarrow> i \<notin> set js"
  by (induction loops arbitrary: js) (auto split: option.splits if_splits)

lemma no_self_append_jtype:
  "no_self_connection rows \<Longrightarrow> no_self_connection (modify_row i t (append_jtype jt) rows)"
  by (induction rows) (simp_all add: no_self_connection_def modify_row_def append_jtype_def)

lemma no_self_extend_connected:
  "no_self_connection rows \<Longrightarrow> i \<notin> set js \<Longrightarrow>
   no_self_connection (modify_row i t (extend_connected js) rows)"
  by (induction rows)
     (auto simp: no_self_connection_def modify_row_def extend_connected_def key_is_def)

lemma process_loop_no_self:
  assumes "process_loop ts jt loops rows loop = Inr rows'" and "no_self_connection rows"
  shows "no_self_connection rows'"
proof -
  from assms(1) obtain i js where js: "other_loops loops i = Some js"
    and rows': "rows' = modify_row i ts (extend_connected js) (modify_row i ts (append_jtype jt) rows)"
    by (rule process_loop_Inr)
  from js have "i \<notin> set js" by (rule other_loops_not_self)
  with assms(2) show ?thesis
    unfolding rows' by (intro no_self_extend_connected no_self_append_jtype)
qed

lemma process_loops_no_self:
  "process_loops ts jt loops rows rest = Inr rows' \<Longrightarrow> no_self_connection rows \<Longrightarrow>
   no_self_connection rows'"
proof (induction rest arbitrary: rows)
  case Nil
  then show ?case by simp
next
  case (Cons loop rest)
  from Cons.prems(1) obtain rows1 where 1: "process_loop ts jt loops rows loop = Inr rows1"
    and 2: "process_loops ts jt loops rows1 rest = Inr rows'"
    by (cases "process_loop ts jt loops rows loop") simp_all
  from 1 Cons.prems(2) have "no_self_connection rows1" by (rule process_loop_no_self)
  with 2 show ?case by (rule Cons.IH)
qed

lemma process_junctions_no_self:
  "process_junctions ts rows js = Inr rows' \<Longrightarrow> no_self_connection rows \<Longrightarrow>
   no_self_connection rows'"
proof (induction js arbitrary: rows)
  case Nil
  then show ?case by simp
next
  case (Cons j js)
  from Cons.prems(1) obtain rows1 where 1: "process_junction ts rows j = Inr rows1"
    and 2: "process_junctions ts rows1 js = Inr rows'"
    by (cases "process_junction ts rows j") simp_all
  from 1 Cons.prems(2) have "no_self_connection rows1"
    unfolding process_junction_def Let_def by (rule process_loops_no_self)
  with 2 show ?case by (rule Cons.IH)
qed

lemma collect_loops_no_self:
  "no_self_connection rows \<Longrightarrow> no_self_connection (collect_loops ts ids rows)"
  by (induction ids) (simp_all add: collect_loops_def no_self_connection_def new_row_def)

lemma aggregate_ts_no_self:
  "aggregate_ts db ts rows = Inr rows' \<Longrightarrow> no_self_connection rows \<Longrightarrow>
   no_self_connection rows'"
  unfolding aggregate_ts_def
  by (erule process_junctions_no_self) (rule collect_loops_no_self)

lemma aggregate_range_no_self:
  "aggregate_range db rows tss = Inr rows' \<Longrightarrow> no_self_connection rows \<Longrightarrow>
   no_self_connection rows'"
proof (induction tss arbitrary: rows)
  case Nil
  then show ?case by simp
next
  case (Cons ts tss)
  from Cons.prems(1) obtain rows1 where 1: "aggregate_ts db ts rows = Inr rows1"
    and 2: "aggregate_range db rows1 tss = Inr rows'"
    by (cases "aggregate_ts db ts rows") simp_all
  from 1 Cons.prems(2) have "no_self_connection rows1" by (rule aggregate_ts_no_self)
  with 2 show ?case by (rule Cons.IH)
qed

text \<open>
  Claim C5: the list that the fold appends to the connected loops of loop L never
  contains L, and after the fold over any sequence of timestamps, in particular the whole
  scan range, no row's connected loops contain that row's own id.
\<close>

theorem no_loop_connected_to_itself:
  "(\<forall>others. other_loops loops loop_id = Some others \<longrightarrow> loop_id \<notin> set others) \<and>
   (\<forall>rows. aggregate_range db [] tss = Inr rows \<longrightarrow>
      (\<forall>r\<in>set rows. row_id r \<notin> set (connected_loops r))) \<and>
   (\<forall>rows. eloop_creation db = Inr rows \<longrightarrow>
      (\<forall>r\<in>set rows. row_id r \<notin> set (connected_loops r)))"
proof -
  have empty: "no_self_connection []" by (simp add: no_self_connection_def)
  have "\<forall>r\<in>set rows. row_id r \<notin> set (connected_loops r)"
    if "aggregate_range db [] tss' = Inr rows" for rows tss'
    using aggregate_range_no_self [OF that empty]
    by (simp add: no_self_connection_def list_all_iff)
  then show ?thesis
    unfolding eloop_creation_def by (blast dest: other_loops_not_self)
qed

lemma eloop_creation_db_single:
  "eloop_creation db_single =
     Inr (new_row 50 7 #
          [\<lparr>row_id = 3, row_time = 100, jtypes = [], connected_loops = []\<rparr>,
           \<lparr>row_id = 1, row_time = 100, jtypes = [''T''], connected_loops = [2]\<rparr>,
           \<lparr>row_id = 2, row_time = 100, jtypes = [''T''], connected_loops = [1]\<rparr>] @
          map (\<lambda>k. new_row (50 * int k) 7) [3..<200])"
  by code_simp

lemma aggregate_range_db_single:
  "aggregate_range db_single [] [50, 100] =
     Inr [new_row 50 7,
          \<lparr>row_id = 3, row_time = 100, jtypes = [], connected_loops = []\<rparr>,
          \<lparr>row_id = 1, row_time = 100, jtypes = [''T''], connected_loops = [2]\<rparr>,
          \<lparr>row_id = 2, row_time = 100, jtypes = [''T''], connected_loops = [1]\<rparr>]"
  by code_simp

lemma result_list_all:
  "x = Inr R \<Longrightarrow> \<forall>rows. x = Inr rows \<longrightarrow> (\<forall>r\<in>set rows. P r) \<Longrightarrow>
   \<not> isl x \<and> list_all P (projr x)"
  by (simp add: list_all_iff)

theorem no_loop_connected_to_itself_witness:
  "other_loops [''1'', ''2'', ''01''] 1 = Some [2] \<and> (1::int) \<notin> set [2] \<and>
   (\<not> isl (aggregate_range db_single [] [50, 100]) \<and>
    list_all (\<lambda>r. row_id r \<notin> set (connected_loops r))
      (projr (aggregate_range db_single [] [50, 100]))) \<and>
   (\<not> isl (eloop_creation db_single) \<and>
    list_all (\<lambda>r. row_id r \<notin> set (connected_loops r)) (projr (eloop_creation db_single)))"
proof -
  have 1: "other_loops [''1'', ''2'', ''01''] 1 = Some [2]" by code_simp
  note inst = no_loop_connected_to_itself [of "[''1'', ''2'', ''01'']" 1 db_single "[50, 100]"]
  from inst have a: "\<forall>others. other_loops [''1'', ''2'', ''01''] 1 = Some others \<longrightarrow> 1 \<notin> set others"
    by (rule conjunct1)
  from inst have b: "\<forall>rows. aggregate_range db_single [] [50, 100] = Inr rows \<longrightarrow>
      (\<forall>r\<in>set rows. row_id r \<notin> set (connected_loops r))"
    by (rule conjunct1 [OF conjunct2])
  from inst have c: "\<forall>rows. eloop_creation db_single = Inr rows \<longrightarrow>
      (\<forall>r\<in>set rows. row_id r \<notin> set (connected_loops r))"
    by (rule conjunct2 [OF conjunct2])
  from spec [OF a, of "[2]"] 1 have 2: "(1::int) \<notin> set [2]" by (rule mp)
  note 3 = result_list_all [OF aggregate_range_db_single b]
  note 4 = result_list_all [OF eloop_creation_db_single c]
  from 1 2 3 4 show ?thesis by (simp only: simp_thms)
qed

subsection \<open>Malformed and unknown loop ids\<close>

text \<open>
  A piece of a global id decodes to a collected loop when \<^verbatim>\<open>int\<close> accepts it and
  its value is among the collected ids; a junction is fine when all its pieces do.
\<close>

definition decodes_to :: "int list \<Rightarrow> string \<Rightarrow> bool" where
  "decodes_to ids loop = (case py_int loop of None \<Rightarrow> False | Some i \<Rightarrow> i \<in> set ids)"

definition junction_fine :: "int list \<Rightarrow> string \<times> string \<Rightarrow> bool" where
  "junction_fine ids junction = list_all (decodes_to ids) (split_hyphen (fst junction))"

lemma split_hyphen_not_Nil: "split_hyphen s \<noteq> []"
  by (induction s) (auto split: list.splits)

lemma process_loop_ValueError:
  "py_int loop = None \<Longrightarrow> process_loop ts jt loops rows loop = Inl ValueError"
  by (simp add: process_loop_def)

lemma process_loop_absent:
  "py_int loop = Some i \<Longrightarrow> filter (key_is i ts) rows = [] \<Longrightarrow>
   process_loop ts jt loops rows loop = Inl KeyError"
  by (simp add: process_loop_def loc_check_def)

lemma process_loop_malformed:
  assumes "\<exists>l\<in>set loops. py_int l = None"
  shows "isl (process_loop ts jt loops rows loop)"
proof -
  from assms have "other_loops loops i = None" for i
    by (simp only: other_loops_None_iff)
  then show ?thesis
    by (simp add: process_loop_def Let_def split: option.splits)
qed

lemma process_loops_malformed:
  assumes "\<exists>l\<in>set loops. py_int l = None" and "rest \<noteq> []"
  shows "isl (process_loops ts jt loops rows rest)"
proof (cases rest)
  case Nil
  with assms(2) show ?thesis by simp
next
  case (Cons loop rest')
  from process_loop_malformed [OF assms(1), of ts jt rows loop]
  show ?thesis unfolding Cons by (cases "process_loop ts jt loops rows loop") simp_all
qed

lemma process_junction_malformed:
  assumes "\<exists>l\<in>set (split_hyphen (fst j)). py_int l = None"
  shows "isl (process_junction ts rows j)"
  unfolding process_junction_def Let_def
  using assms split_hyphen_not_Nil by (rule process_loops_malformed)

lemma process_junctions_malformed:
  assumes "j \<in> set js" and "\<exists>l\<in>set (split_hyphen (fst j)). py_int l = None"
  shows "isl (process_junctions ts rows js)"
  using assms(1)
proof (induction js arbitrary: rows)
  case Nil
  then show ?case by simp
next
  case (Cons j' js)
  show ?case
  proof (cases "process_junction ts rows j'")
    case (Inl e)
    then show ?thesis by simp
  next
    case (Inr rows1)
    with process_junction_malformed [OF assms(2), of ts rows] have "j' \<noteq> j" by auto
    with Cons.prems have "j \<in> set js" by simp
    then have "isl (process_junctions ts rows1 js)" by (rule Cons.IH)
    with Inr show ?thesis by simp
  qed
qed

lemma aggregate_range_malformed:
  assumes "j \<in> set (junction_query db ts)" and "\<exists>l\<in>set (split_hyphen (fst j)). py_int l = None"
    and "ts \<in> set tss"
  shows "isl (aggregate_range db rows tss)"
  using assms(3)
proof (induction tss arbitrary: rows)
  case Nil
  then show ?case by simp
next
  case (Cons ts' tss)
  show ?case
  proof (cases "aggregate_ts db ts' rows")
    case (Inl e)
    then show ?thesis by simp
  next
    case (Inr rows1)
    have "isl (aggregate_ts db ts rows)"
      unfolding aggregate_ts_def using assms(1,2) by (rule process_junctions_malformed)
    with Inr have "ts' \<noteq> ts" by auto
    with Cons.prems have "ts \<in> set tss" by simp
    then have "isl (aggregate_range db rows1 tss)" by (rule Cons.IH)
    with Inr show ?thesis by simp
  qed
qed

lemma decodes_toE:
  assumes "decodes_to ids l"
  obtains i where "py_int l = Some i" "i \<in> set ids"
  using assms by (auto simp: decodes_to_def split: option.splits)

lemma other_loops_Some:
  assumes "\<forall>l\<in>set loops. py_int l \<noteq> None"
  obtains js where "other_loops loops i = Some js"
  using assms other_loops_None_iff [of loops i] by (cases "other_loops loops i") auto

lemma process_loop_fine:
  assumes "table_ok ids ts rows" and "\<forall>l\<in>set loops. py_int l \<noteq> None" and "decodes_to ids loop"
  obtains rows' where "process_loop ts jt loops rows loop = Inr rows'" "table_ok ids ts rows'"
proof -
  from assms(3) obtain i where i: "py_int loop = Some i" "i \<in> set ids" by (rule decodes_toE)
  from assms(2) obtain js where js: "other_loops loops i = Some js" by (rule other_loops_Some)
  let ?rows' = "modify_row i ts (extend_connected js) (modify_row i ts (append_jtype jt) rows)"
  have 1: "process_loop ts jt loops rows loop = Inr ?rows'"
    by (simp add: process_loop_table_ok [OF assms(1)] i js)
  have "map row_key ?rows' = map row_key rows"
    by (simp only: row_key_modify_extend_connected row_key_modify_append_jtype)
  then have "table_ok ids ts ?rows'" using assms(1) by (rule table_ok_keys)
  with 1 show thesis by (rule that)
qed

lemma process_loops_fine:
  assumes "\<forall>l\<in>set loops. py_int l \<noteq> None"
  shows "table_ok ids ts rows \<Longrightarrow> list_all (decodes_to ids) rest \<Longrightarrow>
    \<exists>rows'. process_loops ts jt loops rows rest = Inr rows' \<and> table_ok ids ts rows'"
proof (induction rest arbitrary: rows)
  case Nil
  then show ?case by simp
next
  case (Cons loop rest)
  from Cons.prems(2) have l: "decodes_to ids loop" and r: "list_all (decodes_to ids) rest"
    by simp_all
  from Cons.prems(1) assms l obtain rows1
    where 1: "process_loop ts jt loops rows loop = Inr rows1" and 2: "table_ok ids ts rows1"
    by (rule process_loop_fine)
  from Cons.IH [OF 2 r] 1 show ?case by simp
qed

lemma decodes_to_not_None: "list_all (decodes_to ids) loops \<Longrightarrow> \<forall>l\<in>set loops. py_int l \<noteq> None"
  by (auto simp: list_all_iff decodes_to_def split: option.splits)

lemma process_junction_fine:
  assumes "table_ok ids ts rows" and "junction_fine ids j"
  shows "\<exists>rows'. process_junction ts rows j = Inr rows' \<and> table_ok ids ts rows'"
  unfolding process_junction_def Let_def
  using assms(2) unfolding junction_fine_def
  by (intro process_loops_fine decodes_to_not_None assms(1))

lemma process_junctions_fine:
  "table_ok ids ts rows \<Longrightarrow> list_all (junction_fine ids) js \<Longrightarrow>
    \<exists>rows'. process_junctions ts rows js = Inr rows' \<and> table_ok ids ts rows'"
proof (induction js arbitrary: rows)
  case Nil
  then show ?case by simp
next
  case (Cons j js)
  from Cons.prems(2) have j: "junction_fine ids j" and r: "list_all (junction_fine ids) js"
    by simp_all
  from process_junction_fine [OF Cons.prems(1) j] obtain rows1
    where 1: "process_junction ts rows j = Inr rows1" and 2: "table_ok ids ts rows1"
    by blast
  from Cons.IH [OF 2 r] 1 show ?case by simp
qed

lemma process_junctions_append:
  "process_junctions ts rows (pre @ js) =
     (case process_junctions ts rows pre of
        Inl e \<Rightarrow> Inl e
      | Inr rows' \<Rightarrow> process_junctions ts rows' js)"
  by (induction pre arbitrary: rows) (simp_all split: sum.splits)

lemma process_loops_KeyError:
  assumes "\<forall>l\<in>set loops. py_int l \<noteq> None"
  shows "table_ok ids ts rows \<Longrightarrow> \<forall>l\<in>set rest. py_int l \<noteq> None \<Longrightarrow>
    \<not> list_all (decodes_to ids) rest \<Longrightarrow>
    process_loops ts jt loops rows rest = Inl KeyError"
proof (induction rest arbitrary: rows)
  case Nil
  then show ?case by simp
next
  case (Cons loop rest)
  from Cons.prems(2) obtain i where i: "py_int loop = Some i" by auto
  show ?case
  proof (cases "i \<in> set ids")
    case False
    then show ?thesis by (simp add: process_loop_table_ok [OF Cons.prems(1)] i)
  next
    case True
    with i have "decodes_to ids loop" by (simp add: decodes_to_def)
    with Cons.prems(1) assms obtain rows1
      where 1: "process_loop ts jt loops rows loop = Inr rows1" and 2: "table_ok ids ts rows1"
      by (rule process_loop_fine)
    from Cons.prems(2) have 3: "\<forall>l\<in>set rest. py_int l \<noteq> None" by simp
    from Cons.prems(3) \<open>decodes_to ids loop\<close> have 4: "\<not> list_all (decodes_to ids) rest" by simp
    from Cons.IH [OF 2 3 4] 1 show ?thesis by simp
  qed
qed

text \<open>
  The exception raised at a junction one of whose pieces is rejected by \<^verbatim>\<open>int\<close>:
  it is decided at the first piece, since the comprehension over all pieces is evaluated
  while the first piece is processed.
\<close>

definition malformed_error :: "int list \<Rightarrow> string \<Rightarrow> error" where
  "malformed_error ids gid =
     (case split_hyphen gid of
        [] \<Rightarrow> ValueError
      | loop # rest \<Rightarrow>
          (case py_int loop of
             None \<Rightarrow> ValueError
           | Some i \<Rightarrow> if i \<in> set ids then ValueError else KeyError))"

lemma process_loop_first_error:
  assumes "table_ok ids ts rows" and "\<exists>l\<in>set loops. py_int l = None"
  shows "process_loop ts jt loops rows loop =
     Inl (case py_int loop of
            None \<Rightarrow> ValueError
          | Some i \<Rightarrow> if i \<in> set ids then ValueError else KeyError)"
proof -
  from assms(2) have "other_loops loops i = None" for i
    by (simp only: other_loops_None_iff)
  then show ?thesis
    by (simp add: process_loop_table_ok [OF assms(1)] split: option.splits)
qed

lemma process_loops_first_error:
  assumes "table_ok ids ts rows" and "\<exists>l\<in>set loops. py_int l = None"
  shows "process_loops ts jt loops rows (loop # rest) =
     Inl (case py_int loop of
            None \<Rightarrow> ValueError
          | Some i \<Rightarrow> if i \<in> set ids then ValueError else KeyError)"
  by (simp add: process_loop_first_error [OF assms])

lemma process_junction_first_error:
  assumes "table_ok ids ts rows" and "\<exists>l\<in>set (split_hyphen (fst j)). py_int l = None"
  shows "process_junction ts rows j = Inl (malformed_error ids (fst j))"
proof -
  obtain loop rest where sp: "split_hyphen (fst j) = loop # rest"
    using split_hyphen_not_Nil [of "fst j"] by (cases "split_hyphen (fst j)") auto
  from assms(2) have "\<exists>l\<in>set (loop # rest). py_int l = None" unfolding sp .
  from process_loops_first_error [OF assms(1) this, of "snd j" loop rest]
  show ?thesis
    by (simp add: process_junction_def Let_def sp malformed_error_def)
qed

lemma process_junction_KeyError:
  assumes "table_ok ids ts rows" and "\<forall>l\<in>set (split_hyphen (fst j)). py_int l \<noteq> None"
    and "\<not> junction_fine ids j"
  shows "process_junction ts rows j = Inl KeyError"
  unfolding process_junction_def Let_def
  using assms(2) assms(1) assms(2) assms(3) [unfolded junction_fine_def]
  by (rule process_loops_KeyError)

lemma aggregate_ts_reach:
  assumes "distinct (loop_query db ts)" and "distinct (map row_key rows)"
    and "\<forall>r\<in>set rows. row_time r \<noteq> ts"
    and "junction_query db ts = pre @ j # post"
    and "list_all (junction_fine (loop_query db ts)) pre"
  obtains rows1 where "table_ok (loop_query db ts) ts rows1"
    "aggregate_ts db ts rows =
       (case process_junction ts rows1 j of
          Inl e \<Rightarrow> Inl e
        | Inr rows' \<Rightarrow> process_junctions ts rows' post)"
proof -
  have "table_ok (loop_query db ts) ts (collect_loops ts (loop_query db ts) rows)"
    using assms(1,2,3) by (rule table_ok_collect_loops)
  from process_junctions_fine [OF this assms(5)] obtain rows1
    where 1: "process_junctions ts (collect_loops ts (loop_query db ts) rows) pre = Inr rows1"
      and 2: "table_ok (loop_query db ts) ts rows1"
    by blast
  have "aggregate_ts db ts rows =
       (case process_junction ts rows1 j of
          Inl e \<Rightarrow> Inl e
        | Inr rows' \<Rightarrow> process_junctions ts rows' post)"
    by (simp add: aggregate_ts_def assms(4) process_junctions_append 1)
  with 2 show thesis by (rule that)
qed

subsection \<open>A successful fold has looked every piece up\<close>

lemma process_loop_present:
  assumes "process_loop ts jt loops rows loop = Inr rows'"
  shows "\<exists>i. py_int loop = Some i \<and> (i, ts) \<in> set (map row_key rows)"
proof -
  from assms obtain i where i: "py_int loop = Some i" and l: "loc_check rows i ts = None"
    by (rule process_loop_Inr)
  from l have "filter (key_is i ts) rows \<noteq> []"
    by (auto simp: loc_check_def split: if_splits)
  then have "(i, ts) \<in> set (map row_key rows)" by (simp only: filter_key_is_Nil simp_thms)
  with i show ?thesis by blast
qed

lemma process_loops_present:
  "process_loops ts jt loops rows rest = Inr rows' \<Longrightarrow>
   \<forall>l\<in>set rest. \<exists>i. py_int l = Some i \<and> (i, ts) \<in> set (map row_key rows)"
proof (induction rest arbitrary: rows)
  case Nil
  then show ?case by simp
next
  case (Cons loop rest)
  from Cons.prems obtain rows1 where 1: "process_loop ts jt loops rows loop = Inr rows1"
    and 2: "process_loops ts jt loops rows1 rest = Inr rows'"
    by (cases "process_loop ts jt loops rows loop") simp_all
  from Cons.IH [OF 2] process_loop_keys [OF 1] process_loop_present [OF 1]
  show ?case by simp
qed

lemma process_junctions_present:
  "process_junctions ts rows js = Inr rows' \<Longrightarrow>
   \<forall>j\<in>set js. \<forall>l\<in>set (split_hyphen (fst j)).
      \<exists>i. py_int l = Some i \<and> (i, ts) \<in> set (map row_key rows)"
proof (induction js arbitrary: rows)
  case Nil
  then show ?case by simp
next
  case (Cons j js)
  from Cons.prems obtain rows1 where 1: "process_junction ts rows j = Inr rows1"
    and 2: "process_junctions ts rows1 js = Inr rows'"
    by (cases "process_junction ts rows j") simp_all
  from 1 have "\<forall>l\<in>set (split_hyphen (fst j)).
      \<exists>i. py_int l = Some i \<and> (i, ts) \<in> set (map row_key rows)"
    unfolding process_junction_def Let_def by (rule process_loops_present)
  with Cons.IH [OF 2] process_junction_keys [OF 1] show ?case by simp
qed

lemma aggregate_ts_success_fine:
  assumes "\<forall>r\<in>set rows. row_time r \<noteq> ts" and "aggregate_ts db ts rows = Inr rows'"
  shows "list_all (junction_fine (loop_query db ts)) (junction_query db ts)"
proof -
  have key: "(i, ts) \<in> set (map row_key (collect_loops ts (loop_query db ts) rows)) \<Longrightarrow>
      i \<in> set (loop_query db ts)" for i
    using other_time_keys [OF assms(1), of i] unfolding collect_loops_keys by auto
  from assms(2) have "\<forall>j\<in>set (junction_query db ts). \<forall>l\<in>set (split_hyphen (fst j)).
      \<exists>i. py_int l = Some i \<and> (i, ts) \<in> set (map row_key (collect_loops ts (loop_query db ts) rows))"
    unfolding aggregate_ts_def by (rule process_junctions_present)
  with key have "\<forall>j\<in>set (junction_query db ts). \<forall>l\<in>set (split_hyphen (fst j)).
      \<exists>i. py_int l = Some i \<and> i \<in> set (loop_query db ts)"
    by blast
  then have "\<forall>j\<in>set (junction_query db ts). \<forall>l\<in>set (split_hyphen (fst j)).
      decodes_to (loop_query db ts) l"
    unfolding decodes_to_def by (fastforce split: option.splits)
  then show ?thesis
    by (simp add: list_all_iff junction_fine_def)
qed

subsection \<open>A malformed junction\<close>

text \<open>
  Claim C9, as amended: if a junction's global id at a timestamp has a piece that the
  integer conversion rejects, converting that piece raises ValueError, and every run over
  a range containing that timestamp, the script's scan range included, ends in an
  exception and never skips the junction. When the fold reaches that junction (collected
  ids distinct, older rows with distinct keys at other timestamps, earlier junctions of
  the timestamp fine), the exception is the ValueError of the conversion if the junction's
  first piece is itself rejected or decodes to a collected loop, and the KeyError of the
  lookup if the first piece decodes to a loop that was not collected.
\<close>

theorem malformed_junction_aborts:
  assumes "(gid, jtype) \<in> set (junction_query db ts)"
    and "loop \<in> set (split_hyphen gid)" and "py_int loop = None"
  shows "process_loop ts jtype (split_hyphen gid) rows0 loop = Inl ValueError \<and>
    (ts \<in> set tss \<longrightarrow> isl (aggregate_range db rows tss)) \<and>
    (ts \<in> set scan_range \<longrightarrow> isl (eloop_creation db)) \<and>
    (distinct (loop_query db ts) \<and> distinct (map row_key rows) \<and>
     (\<forall>r\<in>set rows. row_time r \<noteq> ts) \<and>
     junction_query db ts = pre @ (gid, jtype) # post \<and>
     list_all (junction_fine (loop_query db ts)) pre \<longrightarrow>
       aggregate_ts db ts rows = Inl (malformed_error (loop_query db ts) gid))"
proof -
  from assms(2,3) have bad: "\<exists>l\<in>set (split_hyphen (fst (gid, jtype))). py_int l = None"
    by auto
  have step: "process_loop ts jtype (split_hyphen gid) rows0 loop = Inl ValueError"
    using assms(3) by (rule process_loop_ValueError)
  have range: "isl (aggregate_range db rows' tss')" if "ts \<in> set tss'" for rows' tss'
    using assms(1) bad that by (rule aggregate_range_malformed)
  have "aggregate_ts db ts rows = Inl (malformed_error (loop_query db ts) gid)"
    if d: "distinct (loop_query db ts)" and k: "distinct (map row_key rows)"
      and o: "\<forall>r\<in>set rows. row_time r \<noteq> ts"
      and j: "junction_query db ts = pre @ (gid, jtype) # post"
      and p: "list_all (junction_fine (loop_query db ts)) pre"
  proof -
    from d k o j p obtain rows1 where 1: "table_ok (loop_query db ts) ts rows1"
      and 2: "aggregate_ts db ts rows =
       (case process_junction ts rows1 (gid, jtype) of
          Inl e \<Rightarrow> Inl e
        | Inr rows' \<Rightarrow> process_junctions ts rows' post)"
      by (rule aggregate_ts_reach)
    from process_junction_first_error [OF 1 bad] 2 show ?thesis by simp
  qed
  with step range show ?thesis
    unfolding eloop_creation_def by blast
qed

text \<open>
  The claim as stated fails: with loops 1 and 2 collected and the single junction "5-x",
  the lookup of loop 5 raises KeyError before the piece "x" is converted.
\<close>

definition db_unknown_first :: graph_db where
  "db_unknown_first = \<lparr>loop_query = (\<lambda>t. [1, 2]),
     junction_query = (\<lambda>t. if t = 50 then [(''5-x'', ''T'')] else [])\<rparr>"

theorem malformed_junction_counterexample:
  "(''5-x'', ''T'') \<in> set (junction_query db_unknown_first 50) \<and>
   ''x'' \<in> set (split_hyphen ''5-x'') \<and> py_int ''x'' = None \<and>
   aggregate_ts db_unknown_first 50 [] = Inl KeyError \<and>
   eloop_creation db_unknown_first = Inl KeyError"
  by code_simp

definition db_malformed :: graph_db where
  "db_malformed = \<lparr>loop_query = (\<lambda>t. [1, 2]),
     junction_query = (\<lambda>t. if t = 100 then [(''1-2'', ''T''), (''1-x'', ''U''), (''2'', ''V'')] else [])\<rparr>"

lemma db_malformed_facts:
  "(''1-x'', ''U'') \<in> set (junction_query db_malformed 100)"
  "''x'' \<in> set (split_hyphen ''1-x'')" "py_int ''x'' = None"
  "(100::int) \<in> set [50, 100, 150]" "100 \<in> set scan_range"
  "distinct (loop_query db_malformed 100)"
  "distinct (map row_key [new_row 50 1, new_row 50 2])"
  "\<forall>r\<in>set [new_row 50 1, new_row 50 2]. row_time r \<noteq> 100"
  "junction_query db_malformed 100 = [(''1-2'', ''T'')] @ (''1-x'', ''U'') # [(''2'', ''V'')]"
  "list_all (junction_fine (loop_query db_malformed 100)) [(''1-2'', ''T'')]"
  "malformed_error (loop_query db_malformed 100) ''1-x'' = ValueError"
  by code_simp+

theorem malformed_junction_aborts_witness:
  "(''1-x'', ''U'') \<in> set (junction_query db_malformed 100) \<and>
   ''x'' \<in> set (split_hyphen ''1-x'') \<and> py_int ''x'' = None \<and>
   process_loop 100 ''U'' (split_hyphen ''1-x'') [new_row 100 1] ''x'' = Inl ValueError \<and>
   (100::int) \<in> set [50, 100, 150] \<and>
   isl (aggregate_range db_malformed [new_row 50 1, new_row 50 2] [50, 100, 150]) \<and>
   100 \<in> set scan_range \<and> isl (eloop_creation db_malformed) \<and>
   distinct (loop_query db_malformed 100) \<and>
   distinct (map row_key [new_row 50 1, new_row 50 2]) \<and>
   junction_query db_malformed 100 = [(''1-2'', ''T'')] @ (''1-x'', ''U'') # [(''2'', ''V'')] \<and>
   list_all (junction_fine (loop_query db_malformed 100)) [(''1-2'', ''T'')] \<and>
   aggregate_ts db_malformed 100 [new_row 50 1, new_row 50 2] = Inl ValueError"
  using malformed_junction_aborts [of "''1-x''" "''U''" db_malformed 100 "''x''"
      "[new_row 100 1]" "[50, 100, 150]" "[new_row 50 1, new_row 50 2]"
      "[(''1-2'', ''T'')]" "[(''2'', ''V'')]"]
    db_malformed_facts
  by (simp only: simp_thms)

subsection \<open>An unknown loop id\<close>

text \<open>
  Claim C10: when the fold comes to update the row of a loop id that a junction decodes
  to and that has no row at the timestamp, the lookup raises KeyError and no row is
  created: a successful fold leaves the keys of the table as they were after collecting
  the loops, and it has found every piece of every junction to decode to a collected id,
  which is thus the precondition of success (with distinct collected ids and distinct
  older keys it is also sufficient). At the level of the fold: with distinct collected
  ids and older rows with distinct keys at other timestamps, if the fold reaches a
  junction (earlier junctions of the timestamp fine) all of whose pieces decode and one
  of whose decoded ids was not collected, the fold fails with KeyError.
\<close>

theorem unknown_loop_id_fails:
  "(py_int loop = Some i \<and> filter (key_is i ts) rows0 = [] \<longrightarrow>
      process_loop ts jtype loops rows0 loop = Inl KeyError) \<and>
   (\<forall>rows'. aggregate_ts db ts rows = Inr rows' \<longrightarrow>
      map row_key rows' = map row_key rows @ map (\<lambda>i. (i, ts)) (loop_query db ts)) \<and>
   ((\<forall>r\<in>set rows. row_time r \<noteq> ts) \<and> (\<exists>rows'. aggregate_ts db ts rows = Inr rows') \<longrightarrow>
      list_all (junction_fine (loop_query db ts)) (junction_query db ts)) \<and>
   (distinct (loop_query db ts) \<and> distinct (map row_key rows) \<and>
    (\<forall>r\<in>set rows. row_time r \<noteq> ts) \<and>
    list_all (junction_fine (loop_query db ts)) (junction_query db ts) \<longrightarrow>
      (\<exists>rows'. aggregate_ts db ts rows = Inr rows')) \<and>
   (distinct (loop_query db ts) \<and> distinct (map row_key rows) \<and>
    (\<forall>r\<in>set rows. row_time r \<noteq> ts) \<and>
    junction_query db ts = pre @ (gid, jtype) # post \<and>
    list_all (junction_fine (loop_query db ts)) pre \<and>
    (\<forall>l\<in>set (split_hyphen gid). py_int l \<noteq> None) \<and>
    (\<exists>l\<in>set (split_hyphen gid). \<exists>i. py_int l = Some i \<and> i \<notin> set (loop_query db ts)) \<longrightarrow>
      aggregate_ts db ts rows = Inl KeyError)"
proof (intro conjI impI allI)
  let ?ids = "loop_query db ts"
  show "process_loop ts jtype loops rows0 loop = Inl KeyError"
    if "py_int loop = Some i \<and> filter (key_is i ts) rows0 = []"
    using that by (auto intro: process_loop_absent)
  show "map row_key rows' = map row_key rows @ map (\<lambda>i. (i, ts)) ?ids"
    if "aggregate_ts db ts rows = Inr rows'" for rows'
    using that by (rule aggregate_ts_keys)
  show "list_all (junction_fine ?ids) (junction_query db ts)"
    if "(\<forall>r\<in>set rows. row_time r \<noteq> ts) \<and> (\<exists>rows'. aggregate_ts db ts rows = Inr rows')"
    using that by (auto intro: aggregate_ts_success_fine)
  show "\<exists>rows'. aggregate_ts db ts rows = Inr rows'"
    if "distinct ?ids \<and> distinct (map row_key rows) \<and> (\<forall>r\<in>set rows. row_time r \<noteq> ts) \<and>
      list_all (junction_fine ?ids) (junction_query db ts)"
  proof -
    from that have "table_ok ?ids ts (collect_loops ts ?ids rows)"
      by (intro table_ok_collect_loops) simp_all
    from process_junctions_fine [OF this] that
    show ?thesis unfolding aggregate_ts_def by blast
  qed
  show "aggregate_ts db ts rows = Inl KeyError"
    if h: "distinct ?ids \<and> distinct (map row_key rows) \<and> (\<forall>r\<in>set rows. row_time r \<noteq> ts) \<and>
      junction_query db ts = pre @ (gid, jtype) # post \<and>
      list_all (junction_fine ?ids) pre \<and>
      (\<forall>l\<in>set (split_hyphen gid). py_int l \<noteq> None) \<and>
      (\<exists>l\<in>set (split_hyphen gid). \<exists>i. py_int l = Some i \<and> i \<notin> set ?ids)"
  proof -
    from h have d: "distinct ?ids" and k: "distinct (map row_key rows)"
      and o: "\<forall>r\<in>set rows. row_time r \<noteq> ts"
      and j: "junction_query db ts = pre @ (gid, jtype) # post"
      and p: "list_all (junction_fine ?ids) pre"
      and dec: "\<forall>l\<in>set (split_hyphen (fst (gid, jtype))). py_int l \<noteq> None"
      and un: "\<exists>l\<in>set (split_hyphen gid). \<exists>i. py_int l = Some i \<and> i \<notin> set ?ids"
      by simp_all
    from un obtain l i where "l \<in> set (split_hyphen gid)" "py_int l = Some i" "i \<notin> set ?ids"
      by blast
    then have "\<exists>l\<in>set (split_hyphen gid). \<not> decodes_to ?ids l"
      by (intro bexI [of _ l]) (simp_all add: decodes_to_def)
    then have nf: "\<not> junction_fine ?ids (gid, jtype)"
      by (simp add: junction_fine_def list_all_iff)
    from d k o j p obtain rows1 where 1: "table_ok ?ids ts rows1"
      and 2: "aggregate_ts db ts rows =
       (case process_junction ts rows1 (gid, jtype) of
          Inl e \<Rightarrow> Inl e
        | Inr rows' \<Rightarrow> process_junctions ts rows' post)"
      by (rule aggregate_ts_reach)
    from process_junction_KeyError [OF 1 dec nf] 2 show ?thesis by simp
  qed
qed

definition db_unknown :: graph_db where
  "db_unknown = \<lparr>loop_query = (\<lambda>t. [1, 2]),
     junction_query = (\<lambda>t. if t = 100 then [(''1-2'', ''T''), (''2-7'', ''U''), (''1'', ''V'')] else [])\<rparr>"

lemma db_unknown_facts:
  "distinct (loop_query db_unknown 100)"
  "distinct (map row_key [new_row 50 1, new_row 50 2])"
  "\<forall>r\<in>set [new_row 50 1, new_row 50 2]. row_time r \<noteq> 100"
  "junction_query db_unknown 100 = [(''1-2'', ''T'')] @ (''2-7'', ''U'') # [(''1'', ''V'')]"
  "list_all (junction_fine (loop_query db_unknown 100)) [(''1-2'', ''T'')]"
  "\<forall>l\<in>set (split_hyphen ''2-7''). py_int l \<noteq> None"
  "''7'' \<in> set (split_hyphen ''2-7'')" "py_int ''7'' = Some 7"
  "7 \<notin> set (loop_query db_unknown 100)"
  "filter (key_is 7 100) [new_row 50 1, new_row 100 1, new_row 100 2] = []"
  by code_simp+

lemma db_single_facts:
  "distinct (loop_query db_single 100)"
  "distinct (map row_key [new_row 50 7])"
  "\<forall>r\<in>set [new_row 50 7]. row_time r \<noteq> 100"
  "list_all (junction_fine (loop_query db_single 100)) (junction_query db_single 100)"
  "aggregate_ts db_single 100 [new_row 50 7] =
     Inr [new_row 50 7,
          \<lparr>row_id = 3, row_time = 100, jtypes = [], connected_loops = []\<rparr>,
          \<lparr>row_id = 1, row_time = 100, jtypes = [''T''], connected_loops = [2]\<rparr>,
          \<lparr>row_id = 2, row_time = 100, jtypes = [''T''], connected_loops = [1]\<rparr>]"
  by code_simp+

theorem unknown_loop_id_fails_witness:
  "py_int ''7'' = Some 7 \<and>
   filter (key_is 7 100) [new_row 50 1, new_row 100 1, new_row 100 2] = [] \<and>
   process_loop 100 ''U'' [''2'', ''7''] [new_row 50 1, new_row 100 1, new_row 100 2] ''7'' =
     Inl KeyError \<and>
   distinct (loop_query db_unknown 100) \<and>
   distinct (map row_key [new_row 50 1, new_row 50 2]) \<and>
   junction_query db_unknown 100 = [(''1-2'', ''T'')] @ (''2-7'', ''U'') # [(''1'', ''V'')] \<and>
   list_all (junction_fine (loop_query db_unknown 100)) [(''1-2'', ''T'')] \<and>
   ''7'' \<in> set (split_hyphen ''2-7'') \<and> 7 \<notin> set (loop_query db_unknown 100) \<and>
   aggregate_ts db_unknown 100 [new_row 50 1, new_row 50 2] = Inl KeyError \<and>
   distinct (loop_query db_single 100) \<and> distinct (map row_key [new_row 50 7]) \<and>
   (\<exists>rows'. aggregate_ts db_single 100 [new_row 50 7] = Inr rows') \<and>
   list_all (junction_fine (loop_query db_single 100)) (junction_query db_single 100) \<and>
   map row_key (projr (aggregate_ts db_single 100 [new_row 50 7])) =
     map row_key [new_row 50 7] @ map (\<lambda>i. (i, 100)) (loop_query db_single 100)"
proof -
  note a = unknown_loop_id_fails [of "''7''" 7 100 "[new_row 50 1, new_row 100 1, new_row 100 2]"
      "''U''" "[''2'', ''7'']" db_unknown "[new_row 50 1, new_row 50 2]"
      "[(''1-2'', ''T'')]" "''2-7''" "[(''1'', ''V'')]"]
  from a db_unknown_facts(8,10)
  have 0: "process_loop 100 ''U'' [''2'', ''7''] [new_row 50 1, new_row 100 1, new_row 100 2] ''7'' =
     Inl KeyError"
    by blast
  have un: "\<exists>l\<in>set (split_hyphen ''2-7''). \<exists>i. py_int l = Some i \<and> i \<notin> set (loop_query db_unknown 100)"
    using db_unknown_facts(7,8,9) by blast
  from a db_unknown_facts(1,2,3,4,5,6) un
  have 1: "aggregate_ts db_unknown 100 [new_row 50 1, new_row 50 2] = Inl KeyError"
    by blast
  note b = unknown_loop_id_fails [where db = db_single and ts = 100 and rows = "[new_row 50 7]"]
  from b db_single_facts(1,2,3,4)
  have ex: "\<exists>rows'. aggregate_ts db_single 100 [new_row 50 7] = Inr rows'"
    by blast
  from b db_single_facts(3) ex
  have 2: "list_all (junction_fine (loop_query db_single 100)) (junction_query db_single 100)"
    by blast
  from b db_single_facts(5)
  have 3: "map row_key (projr (aggregate_ts db_single 100 [new_row 50 7])) =
     map row_key [new_row 50 7] @ map (\<lambda>i. (i, 100)) (loop_query db_single 100)"
    by (metis sum.sel(2))
  from db_unknown_facts db_single_facts(1,2) 0 1 ex 2 3 show ?thesis
    by (simp only: simp_thms)
qed

end
